theory Spec2Isabelle
  imports Main
begin

section \<open>The mailbox queue of nemo/mqueue.h\<close>

text \<open>
  \<^verbatim>\<open>mqueue_t\<close> holds two sentinel elements \<^verbatim>\<open>q_head\<close> and \<^verbatim>\<open>q_tail\<close>, a mutex and a
  counting semaphore. The elements linked between the two sentinels are kept as the list
  of their \<^verbatim>\<open>q_data\<close>, head first; the mutex is locked or not; the semaphore is its count.
\<close>

record 'a mqueue =
  q_elems :: "'a list"
  q_mutex :: bool
  q_avail :: nat

definition ENOMEM :: int where
  "ENOMEM = 12"

text \<open>
  Modelled from the spec: \<^verbatim>\<open>mqueue_init\<close>, \<^verbatim>\<open>mqueue_send\<close> and \<^verbatim>\<open>mqueue_wait\<close> are only
  declared in mqueue.h; their bodies are not among the sources. The spec says of them:
  the queue is "an unbounded doubly linked list of Event Records guarded by a mutex, paired
  with a counting semaphore"; enqueue "appends to the tail, increments the semaphore, and
  returns immediately"; dequeue "blocks the single consumer until the semaphore is non-zero,
  then pops the head under the mutex and returns the record". These are the single steps
  the spec names: locking and unlocking the mutex, linking an element at the tail, posting
  the semaphore, passing the semaphore when its count is not zero, unlinking the head.
\<close>

definition mq_lock :: "'a mqueue \<Rightarrow> 'a mqueue" where
  "mq_lock q = q\<lparr>q_mutex := True\<rparr>"

definition mq_unlock :: "'a mqueue \<Rightarrow> 'a mqueue" where
  "mq_unlock q = q\<lparr>q_mutex := False\<rparr>"

definition mq_insque_tail :: "'a \<Rightarrow> 'a mqueue \<Rightarrow> 'a mqueue" where
  "mq_insque_tail d q = q\<lparr>q_elems := q_elems q @ [d]\<rparr>"

definition mq_sem_post :: "'a mqueue \<Rightarrow> 'a mqueue" where
  "mq_sem_post q = q\<lparr>q_avail := Suc (q_avail q)\<rparr>"

definition mq_sem_trywait :: "'a mqueue \<Rightarrow> 'a mqueue option" where
  "mq_sem_trywait q = (if q_avail q = 0 then None else Some (q\<lparr>q_avail := q_avail q - 1\<rparr>))"

definition mq_remque_head :: "'a mqueue \<Rightarrow> ('a \<times> 'a mqueue) option" where
  "mq_remque_head q =
     (case q_elems q of [] \<Rightarrow> None | d # ds \<Rightarrow> Some (d, q\<lparr>q_elems := ds\<rparr>))"

text \<open>
  Modelled from the spec: \<^verbatim>\<open>mqueue_init\<close> is only declared in mqueue.h. It leaves the list
  empty, the mutex free and the semaphore, "whose count equals the number of records
  currently queued", at zero.
\<close>

definition mqueue_init :: "'a mqueue" where
  "mqueue_init = \<lparr>q_elems = [], q_mutex = False, q_avail = 0\<rparr>"

text \<open>
  Modelled from the spec: \<^verbatim>\<open>mqueue_send\<close> is only declared in mqueue.h. An enqueue "appends
  to the tail, increments the semaphore, and returns immediately", and is "atomic with
  respect to the mutex"; "allocation failure on enqueue is fatal to the enqueue attempt" and
  "the record is simply not added". In \<open>mqueue_send elem_ok q d\<close>, \<open>elem_ok\<close> tells whether
  the list element could be allocated; the result is the return code and the queue
  afterwards. It describes the call from its lock to its unlock: a caller that finds the
  mutex held waits for it first, which the steps under interleaving below make explicit.
\<close>

definition mqueue_send :: "bool \<Rightarrow> 'a mqueue \<Rightarrow> 'a \<Rightarrow> int \<times> 'a mqueue" where
  "mqueue_send elem_ok q d =
     (if \<not> elem_ok then (ENOMEM, q)
      else (0, mq_unlock (mq_sem_post (mq_insque_tail d (mq_lock q)))))"

text \<open>
  Modelled from the spec: \<^verbatim>\<open>mqueue_wait\<close> is only declared in mqueue.h. A dequeue "blocks
  the single consumer until the semaphore is non-zero, then pops the head under the mutex
  and returns the record". \<open>mqueue_wait q\<close> is \<open>None\<close> while the caller is blocked on the
  semaphore. Otherwise it is the record taken from the head and the queue afterwards; a
  semaphore that lets the caller through on an empty list gives \<open>Some (None, _)\<close>.
\<close>

definition mqueue_wait :: "'a mqueue \<Rightarrow> ('a option \<times> 'a mqueue) option" where
  "mqueue_wait q =
     (case mq_sem_trywait q of
        None \<Rightarrow> None
      | Some q1 \<Rightarrow>
          (case mq_remque_head (mq_lock q1) of
             None \<Rightarrow> Some (None, mq_unlock (mq_lock q1))
           | Some (d, q2) \<Rightarrow> Some (Some d, mq_unlock q2)))"

text \<open>
  A run without interleaving: the records of a list enqueued one after the other, each
  enqueue succeeding, and \<open>k\<close> dequeues one after the other, \<open>None\<close> as soon as one of them
  blocks.
\<close>

fun mqueue_send_all :: "'a list \<Rightarrow> 'a mqueue \<Rightarrow> 'a mqueue" where
  "mqueue_send_all [] q = q"
| "mqueue_send_all (d # ds) q = mqueue_send_all ds (snd (mqueue_send True q d))"

fun mqueue_wait_n :: "nat \<Rightarrow> 'a mqueue \<Rightarrow> ('a option list \<times> 'a mqueue) option" where
  "mqueue_wait_n 0 q = Some ([], q)"
| "mqueue_wait_n (Suc k) q =
     (case mqueue_wait q of
        None \<Rightarrow> None
      | Some (r, q1) \<Rightarrow>
          (case mqueue_wait_n k q1 of None \<Rightarrow> None | Some (rs, q2) \<Rightarrow> Some (r # rs, q2)))"

section \<open>The mailbox queue under interleaving\<close>

text \<open>
  Modelled from the spec: the bodies of \<^verbatim>\<open>mqueue_send\<close> and \<^verbatim>\<open>mqueue_wait\<close> are not among
  the sources, so the order of their steps is taken from the spec: the queue is
  "multi-producer/single-consumer"; "enqueue and dequeue are each atomic with respect to the
  mutex"; enqueue "appends to the tail, increments the semaphore, and returns"; dequeue
  "blocks the single consumer until the semaphore is non-zero, then pops the head under the
  mutex and returns the record". A producer inside \<^verbatim>\<open>mqueue_send\<close> is about to lock the mutex,
  to link its element at the tail, to post the semaphore, or to unlock and return; the
  consumer inside \<^verbatim>\<open>mqueue_wait\<close> is waiting on the semaphore, about to lock the mutex, to
  unlink the head, or to unlock and return. Each of these steps is one transition, and the
  threads' steps interleave in any order in which every step is enabled.
\<close>

text \<open>
  Where a producer stands: outside \<^verbatim>\<open>mqueue_send\<close>, or inside it with the record \<open>d\<close>,
  before the step the constructor names.
\<close>

datatype 'a send_pc = S_idle | S_lock 'a | S_insque 'a | S_post 'a | S_unlock 'a

text \<open>
  Where the consumer stands in \<^verbatim>\<open>mqueue_wait\<close>. \<open>W_unlock r\<close> holds what the unlinking
  gave: \<open>Some d\<close>, or \<open>None\<close> when the list was empty.
\<close>

datatype 'a wait_pc = W_idle | W_sem | W_lock | W_remque | W_unlock "'a option"

datatype owner = Free | Held_by_consumer | Held_by_producer nat

text \<open>
  The queue with its threads. Beside the queue itself and the threads' positions, the state
  records what an observer of the calls sees: which thread holds the mutex, the records of
  the calls of \<^verbatim>\<open>mqueue_send\<close> that have returned 0 in the order they returned (\<open>completed\<close>),
  the records whose enqueue failed for lack of memory (\<open>refused\<close>), the records
  \<^verbatim>\<open>mqueue_wait\<close> has returned in the order it returned them (\<open>delivered\<close>), and whether
  the head was ever unlinked from an empty list (\<open>corrupted\<close>).
\<close>

record 'a mq_system =
  queue :: "'a mqueue"
  producers :: "'a send_pc list"
  consumer :: "'a wait_pc"
  holder :: owner
  completed :: "'a list"
  refused :: "'a list"
  delivered :: "'a list"
  corrupted :: bool

text \<open>
  What can happen next: producer \<open>n\<close> calls \<^verbatim>\<open>mqueue_send\<close> with a record (and the outcome
  of allocating the list element), the consumer calls \<^verbatim>\<open>mqueue_wait\<close>, or a thread inside a
  call takes its next step. A step is \<open>None\<close> when it cannot be taken now: the thread is
  not there, is not inside a call, or is blocked on the mutex or the semaphore.
\<close>

datatype 'a mq_event = Call_send nat 'a bool | Call_wait | Step_producer nat | Step_consumer

text \<open>
  Modelled from the spec: the steps of \<^verbatim>\<open>mqueue_send\<close> after the allocation, in the order
  the spec gives them, "appends to the tail, increments the semaphore, and returns", all
  between locking and unlocking the mutex. Locking waits while the mutex is held.
\<close>

fun producer_step :: "nat \<Rightarrow> 'a send_pc \<Rightarrow> 'a mq_system \<Rightarrow> ('a send_pc \<times> 'a mq_system) option" where
  "producer_step n S_idle s = None"
| "producer_step n (S_lock d) s =
     (if q_mutex (queue s) then None
      else Some (S_insque d, s\<lparr>queue := mq_lock (queue s), holder := Held_by_producer n\<rparr>))"
| "producer_step n (S_insque d) s = Some (S_post d, s\<lparr>queue := mq_insque_tail d (queue s)\<rparr>)"
| "producer_step n (S_post d) s = Some (S_unlock d, s\<lparr>queue := mq_sem_post (queue s)\<rparr>)"
| "producer_step n (S_unlock d) s =
     Some (S_idle, s\<lparr>queue := mq_unlock (queue s), holder := Free, completed := completed s @ [d]\<rparr>)"

text \<open>
  Modelled from the spec: the steps of \<^verbatim>\<open>mqueue_wait\<close>, which "blocks the single consumer
  until the semaphore is non-zero, then pops the head under the mutex and returns the
  record". Passing the semaphore takes one from its count.
\<close>

fun consumer_step :: "'a wait_pc \<Rightarrow> 'a mq_system \<Rightarrow> 'a mq_system option" where
  "consumer_step W_idle s = None"
| "consumer_step W_sem s =
     (case mq_sem_trywait (queue s) of
        None \<Rightarrow> None
      | Some q \<Rightarrow> Some (s\<lparr>queue := q, consumer := W_lock\<rparr>))"
| "consumer_step W_lock s =
     (if q_mutex (queue s) then None
      else Some (s\<lparr>queue := mq_lock (queue s), consumer := W_remque, holder := Held_by_consumer\<rparr>))"
| "consumer_step W_remque s =
     (case mq_remque_head (queue s) of
        None \<Rightarrow> Some (s\<lparr>consumer := W_unlock None, corrupted := True\<rparr>)
      | Some (d, q) \<Rightarrow> Some (s\<lparr>queue := q, consumer := W_unlock (Some d)\<rparr>))"
| "consumer_step (W_unlock r) s =
     Some (s\<lparr>queue := mq_unlock (queue s), consumer := W_idle, holder := Free,
             delivered := delivered s @ (case r of None \<Rightarrow> [] | Some d \<Rightarrow> [d])\<rparr>)"

fun mq_step :: "'a mq_event \<Rightarrow> 'a mq_system \<Rightarrow> 'a mq_system option" where
  "mq_step (Call_send n d ok) s =
     (if n < length (producers s) then
        (case producers s ! n of
           S_idle \<Rightarrow> Some (if ok then s\<lparr>producers := (producers s)[n := S_lock d]\<rparr>
                           else s\<lparr>refused := refused s @ [d]\<rparr>)
         | _ \<Rightarrow> None)
      else None)"
| "mq_step Call_wait s =
     (case consumer s of W_idle \<Rightarrow> Some (s\<lparr>consumer := W_sem\<rparr>) | _ \<Rightarrow> None)"
| "mq_step (Step_producer n) s =
     (if n < length (producers s) then
        (case producer_step n (producers s ! n) s of
           None \<Rightarrow> None
         | Some (pc, s1) \<Rightarrow> Some (s1\<lparr>producers := (producers s1)[n := pc]\<rparr>))
      else None)"
| "mq_step Step_consumer s = consumer_step (consumer s) s"

fun mq_run :: "'a mq_event list \<Rightarrow> 'a mq_system \<Rightarrow> 'a mq_system option" where
  "mq_run [] s = Some s"
| "mq_run (e # es) s = (case mq_step e s of None \<Rightarrow> None | Some s1 \<Rightarrow> mq_run es s1)"

definition mq_start :: "nat \<Rightarrow> 'a mq_system" where
  "mq_start n = \<lparr>queue = mqueue_init, producers = replicate n S_idle, consumer = W_idle,
     holder = Free, completed = [], refused = [], delivered = [], corrupted = False\<rparr>"

text \<open>A quiescent point: no enqueue and no dequeue is in progress.\<close>

fun send_idle :: "'a send_pc \<Rightarrow> bool" where
  "send_idle S_idle = True"
| "send_idle _ = False"

fun wait_idle :: "'a wait_pc \<Rightarrow> bool" where
  "wait_idle W_idle = True"
| "wait_idle _ = False"

definition quiescent :: "'a mq_system \<Rightarrow> bool" where
  "quiescent s = (wait_idle (consumer s) \<and> list_all send_idle (producers s))"

text \<open>
  Observations of a state: whether a thread stands between its lock and its unlock; the
  record a producer has linked while its call has not returned yet (\<open>pending\<close>), and
  whether the semaphore has not been posted for it yet (\<open>unposted\<close>); the record the
  consumer has unlinked while its call has not returned yet (\<open>wait_taken\<close>), and whether
  the consumer has passed the semaphore without having unlinked its record yet
  (\<open>wait_admitted\<close>).
\<close>

fun send_in_cs :: "'a send_pc \<Rightarrow> bool" where
  "send_in_cs (S_insque d) = True"
| "send_in_cs (S_post d) = True"
| "send_in_cs (S_unlock d) = True"
| "send_in_cs _ = False"

fun wait_in_cs :: "'a wait_pc \<Rightarrow> bool" where
  "wait_in_cs W_remque = True"
| "wait_in_cs (W_unlock r) = True"
| "wait_in_cs _ = False"

fun send_linked :: "'a send_pc \<Rightarrow> 'a list" where
  "send_linked (S_post d) = [d]"
| "send_linked (S_unlock d) = [d]"
| "send_linked _ = []"

fun send_unposted :: "'a send_pc \<Rightarrow> nat" where
  "send_unposted (S_post d) = 1"
| "send_unposted _ = 0"

definition pending :: "'a mq_system \<Rightarrow> 'a list" where
  "pending s = (case holder s of Held_by_producer n \<Rightarrow> send_linked (producers s ! n) | _ \<Rightarrow> [])"

definition unposted :: "'a mq_system \<Rightarrow> nat" where
  "unposted s = (case holder s of Held_by_producer n \<Rightarrow> send_unposted (producers s ! n) | _ \<Rightarrow> 0)"

fun wait_taken :: "'a wait_pc \<Rightarrow> 'a list" where
  "wait_taken (W_unlock (Some d)) = [d]"
| "wait_taken _ = []"

fun wait_admitted :: "'a wait_pc \<Rightarrow> nat" where
  "wait_admitted W_lock = 1"
| "wait_admitted W_remque = 1"
| "wait_admitted _ = 0"

text \<open>The next step of the thread that holds the mutex, \<open>None\<close> when no thread holds it.\<close>

definition holder_step :: "'a mq_system \<Rightarrow> 'a mq_system option" where
  "holder_step s =
     (case holder s of
        Free \<Rightarrow> None
      | Held_by_consumer \<Rightarrow> mq_step Step_consumer s
      | Held_by_producer m \<Rightarrow> mq_step (Step_producer m) s)"

definition in_cs_count :: "'a mq_system \<Rightarrow> nat" where
  "in_cs_count s =
     length (filter send_in_cs (producers s)) + (if wait_in_cs (consumer s) then 1 else 0)"

text \<open>The invariant of the reachable states, used in the proofs below.\<close>

definition mq_inv :: "'a mq_system \<Rightarrow> bool" where
  "mq_inv s =
     ((q_mutex (queue s) \<longleftrightarrow> holder s \<noteq> Free)
      \<and> (wait_in_cs (consumer s) \<longleftrightarrow> holder s = Held_by_consumer)
      \<and> (\<forall>i < length (producers s). send_in_cs (producers s ! i) \<longleftrightarrow> holder s = Held_by_producer i)
      \<and> (\<forall>i. holder s = Held_by_producer i \<longrightarrow> i < length (producers s))
      \<and> q_avail (queue s) + wait_admitted (consumer s) + unposted s = length (q_elems (queue s))
      \<and> completed s @ pending s = delivered s @ wait_taken (consumer s) @ q_elems (queue s)
      \<and> (\<exists>xs. q_elems (queue s) = xs @ pending s)
      \<and> (consumer s \<noteq> W_unlock None)
      \<and> \<not> corrupted s)"

section \<open>lacpd.c: the daemon state\<close>

text \<open>
  \<^verbatim>\<open>ML_event\<close> is declared in a header that is not among the sources. lacpd.c touches one
  field of it, \<^verbatim>\<open>sender.peer\<close>; all other fields are kept together as one component, of a
  type with a zero, which is what \<^verbatim>\<open>memset(timerEvent, 0, sizeof(ML_event))\<close> leaves there.
\<close>

record 'r ML_event =
  sender_peer :: int
  other_fields :: 'r

datatype log_level = DL_ERROR | VLL_ERR | VLL_WARN | VLL_INFO

datatype log_arg = Str string | Num int

type_synonym log_record = "log_level \<times> string \<times> log_arg list"

datatype thread_entry = Entry_lacpd_protocol_thread | Entry_lacpd_ovs_main_thread

datatype unixctl_cb = Cb_lacpd_unixctl_dump | Cb_halon_lacpd_exit

record timeval =
  tv_sec :: int
  tv_usec :: int

record itimerval =
  it_interval :: timeval
  it_value :: timeval

text \<open>
  The state the functions of lacpd.c read and write: the globals \<^verbatim>\<open>ml_timer_index\<close>,
  \<^verbatim>\<open>lacpd_shutdown\<close> and \<^verbatim>\<open>exiting\<close>, the mailbox queue behind \<^verbatim>\<open>ml_send_event\<close>, the log,
  and what the calls of \<^verbatim>\<open>lacpd_init\<close> and \<^verbatim>\<open>main\<close> leave in the process: the event receiver,
  the signal mask, the database connection, the registered commands, the threads and the
  interval timer.
\<close>

record 'r daemon =
  ml_timer_index :: int
  lacpd_shutdown :: int
  exiting :: bool
  mailbox :: "'r ML_event mqueue"
  vlog :: "log_record list"
  event_rcvr_ready :: bool
  all_signals_blocked :: bool
  ovsdb_path :: "string option"
  unixctl_commands :: "(string \<times> unixctl_cb) list"
  threads :: "thread_entry list"
  itimer_real :: "itimerval option"

definition log_msg :: "log_level \<Rightarrow> string \<Rightarrow> log_arg list \<Rightarrow> 'r daemon \<Rightarrow> 'r daemon" where
  "log_msg lvl fmt args s = s\<lparr>vlog := vlog s @ [(lvl, fmt, args)]\<rparr>"

section \<open>lacpd.c: the timer handler\<close>

text \<open>
  Modelled from the spec: \<^verbatim>\<open>ml_send_event\<close> is called by \<^verbatim>\<open>timerHandler\<close> and defined outside
  the sources. The spec names it \<open>enqueue(EventRecord)\<close>, "called by the Frame Ingress Adapter
  and Timer Source": it enqueues the record on the mailbox queue, and an allocation failure
  there "is fatal to the enqueue attempt and logged" (the wording of the log line is not
  given).
\<close>

definition ml_send_event :: "bool \<Rightarrow> 'r ML_event \<Rightarrow> 'r daemon \<Rightarrow> 'r daemon" where
  "ml_send_event elem_ok event s =
     (case mqueue_send elem_ok (mailbox s) event of
        (rc, q) \<Rightarrow>
          if rc \<noteq> 0 then log_msg DL_ERROR ''Failed to send to the mailbox queue, rc=%d'' [Num rc] s
          else s\<lparr>mailbox := q\<rparr>)"

definition memset_zero :: "'r::zero ML_event \<Rightarrow> 'r ML_event" where
  "memset_zero e = \<lparr>sender_peer = 0, other_fields = 0\<rparr>"

text \<open>
  \<open>timerHandler block elem_ok s\<close>: \<open>block\<close> is what \<^verbatim>\<open>malloc(sizeof(ML_event))\<close> returns,
  \<open>None\<close> for \<^verbatim>\<open>NULL\<close> and otherwise the block with its arbitrary contents; \<open>elem_ok\<close> is the
  allocation inside the enqueue.
\<close>

definition timerHandler :: "'r::zero ML_event option \<Rightarrow> bool \<Rightarrow> 'r daemon \<Rightarrow> 'r daemon" where
  "timerHandler block elem_ok s =
     (case block of
        None \<Rightarrow> log_msg DL_ERROR ''Out of memory for LACP timer message.\<newline>'' [] s
      | Some timerEvent \<Rightarrow>
          ml_send_event elem_ok ((memset_zero timerEvent)\<lparr>sender_peer := ml_timer_index s\<rparr>) s)"

section \<open>lacpd.c: the signal loop of main\<close>

definition SIGINT :: int where
  "SIGINT = 2"

definition SIGALRM :: int where
  "SIGALRM = 14"

definition SIGTERM :: int where
  "SIGTERM = 15"

text \<open>
  One return of \<^verbatim>\<open>sigwait\<close>: the signal number it stored in \<^verbatim>\<open>signum\<close>, together with
  the outcome of the two allocations a timer tick would make.
\<close>

datatype 'r wakeup = Wakeup (signum: int) (timer_block: "'r ML_event option") (elem_ok: bool)

text \<open>The \<^verbatim>\<open>switch (signum)\<close> of the loop body.\<close>

definition main_switch :: "'r::zero wakeup \<Rightarrow> 'r daemon \<Rightarrow> 'r daemon" where
  "main_switch w s =
     (if signum w = SIGALRM then timerHandler (timer_block w) (elem_ok w) s
      else if signum w = SIGTERM \<or> signum w = SIGINT then
        (log_msg VLL_WARN ''%s, sig %d caught'' [Str ''main'', Num (signum w)] s)
          \<lparr>lacpd_shutdown := 1\<rparr>
      else log_msg VLL_INFO ''Ignoring signal %d.\<newline>'' [Num (signum w)] s)"

datatype loop_status = Loop_exited | Blocked_in_sigwait

text \<open>
  \<^verbatim>\<open>while (!lacpd_shutdown) { sigwait(&sigset, &signum); switch (signum) ... }\<close> run on the
  signals delivered so far: the result is the state, the signals not consumed, and whether
  the loop has been left or the thread is waiting in \<^verbatim>\<open>sigwait\<close> for the next signal.
\<close>

fun main_loop :: "'r::zero daemon \<Rightarrow> 'r wakeup list \<Rightarrow> 'r daemon \<times> 'r wakeup list \<times> loop_status" where
  "main_loop s [] = (s, [], if lacpd_shutdown s \<noteq> 0 then Loop_exited else Blocked_in_sigwait)"
| "main_loop s (w # ws) =
     (if lacpd_shutdown s \<noteq> 0 then (s, w # ws, Loop_exited)
      else main_loop (main_switch w s) ws)"

definition main_timerVal :: itimerval where
  "main_timerVal =
     \<lparr>it_interval = \<lparr>tv_sec = 1, tv_usec = 0\<rparr>, it_value = \<lparr>tv_sec = 1, tv_usec = 0\<rparr>\<rparr>"

text \<open>
  \<^verbatim>\<open>setitimer(ITIMER_REAL, &timerVal, NULL)\<close> with its return value \<open>rc\<close>, and the error
  message of \<^verbatim>\<open>main\<close> when it is not 0.
\<close>

definition main_timer_start :: "int \<Rightarrow> 'r daemon \<Rightarrow> 'r daemon" where
  "main_timer_start rc s =
     (if rc \<noteq> 0 then log_msg VLL_ERR ''lacpd main: Timer start failed!\<newline>'' [] s
      else s\<lparr>itimer_real := Some main_timerVal\<rparr>)"

section \<open>lacpd.c: initialisation\<close>

text \<open>
  \<open>lacpd_init db_path rc s\<close>: \<open>rc\<close> is what \<^verbatim>\<open>pthread_create\<close> returns for the OVSDB
  interface thread. The block that would create the protocol thread stands between
  \<^verbatim>\<open>#if 0\<close> and \<^verbatim>\<open>#endif\<close> and is not compiled. \<open>Inl\<close> is \<^verbatim>\<open>exit(-rc)\<close>.
\<close>

definition lacpd_init :: "string \<Rightarrow> int \<Rightarrow> 'r daemon \<Rightarrow> (int \<times> 'r daemon) + 'r daemon" where
  "lacpd_init db_path rc s =
     (let s1 = s\<lparr>event_rcvr_ready := True\<rparr>;
          s2 = s1\<lparr>all_signals_blocked := True\<rparr>;
          s3 = s2\<lparr>ovsdb_path := Some db_path\<rparr>;
          s4 = s3\<lparr>unixctl_commands :=
                    unixctl_commands s3 @ [(''lacpd/dump'', Cb_lacpd_unixctl_dump)]\<rparr>
      in if rc \<noteq> 0 then
           Inl (- rc, log_msg VLL_ERR ''pthread_create for OVSDB i/f thread failed! rc=%d''
                        [Num rc] s4)
         else Inr (s4\<lparr>threads := threads s4 @ [Entry_lacpd_ovs_main_thread]\<rparr>))"

section \<open>lacpd.c: command line\<close>

definition OPT_UNIXCTL :: int where
  "OPT_UNIXCTL = 255 + 1"

definition EXIT_SUCCESS :: int where
  "EXIT_SUCCESS = 0"

definition EXIT_FAILURE :: int where
  "EXIT_FAILURE = 1"

datatype stop = Exit int | Abort | Vlog_fatal string

text \<open>
  The \<^verbatim>\<open>for (;;)\<close> loop over \<^verbatim>\<open>getopt_long\<close>. Its input is the list of what the successive
  calls return before \<open>-1\<close>: the option code \<open>c\<close> with the value of \<^verbatim>\<open>optarg\<close>. The cases of
  \<^verbatim>\<open>VLOG_OPTION_HANDLERS\<close> and \<^verbatim>\<open>DAEMON_OPTION_HANDLERS\<close> come from library headers; \<open>lib c\<close>
  says whether one of them handles \<open>c\<close>. \<open>104\<close> is \<^verbatim>\<open>'h'\<close> and \<open>63\<close> is \<^verbatim>\<open>'?'\<close>.
\<close>

fun option_loop :: "(int \<Rightarrow> bool) \<Rightarrow> (int \<times> string) list \<Rightarrow> string option \<Rightarrow> stop + string option" where
  "option_loop lib [] unixctl_path = Inr unixctl_path"
| "option_loop lib ((c, optarg) # rest) unixctl_path =
     (if c = 104 then Inl (Exit EXIT_SUCCESS)
      else if c = OPT_UNIXCTL then option_loop lib rest (Some optarg)
      else if lib c then option_loop lib rest unixctl_path
      else if c = 63 then Inl (Exit EXIT_FAILURE)
      else Inl Abort)"

text \<open>
  \<open>parse_options lib rundir opts args unixctl_path\<close>: \<open>args\<close> is \<^verbatim>\<open>argv + optind\<close> after the
  loop, the non-option arguments, so that \<^verbatim>\<open>argc - optind\<close> is its length; \<open>rundir\<close> is
  \<^verbatim>\<open>ovs_rundir()\<close>. The result is the database socket name with the value left in
  \<^verbatim>\<open>*unixctl_pathp\<close>.
\<close>

definition parse_options ::
  "(int \<Rightarrow> bool) \<Rightarrow> string \<Rightarrow> (int \<times> string) list \<Rightarrow> string list \<Rightarrow> string option
     \<Rightarrow> stop + (string \<times> string option)" where
  "parse_options lib rundir opts args unixctl_path =
     (case option_loop lib opts unixctl_path of
        Inl t \<Rightarrow> Inl t
      | Inr p \<Rightarrow>
          (case args of
             [] \<Rightarrow> Inr (''unix:'' @ rundir @ ''/db.sock'', p)
           | [a] \<Rightarrow> Inr (a, p)
           | _ \<Rightarrow> Inl (Vlog_fatal
                 ''at most one non-option argument accepted; use --help for usage'')))"

section \<open>lacpd.c: the ovs-appctl callbacks\<close>

record unixctl_conn =
  replies :: "string option list"

definition unixctl_command_reply :: "unixctl_conn \<Rightarrow> string option \<Rightarrow> unixctl_conn" where
  "unixctl_command_reply conn body = conn\<lparr>replies := replies conn @ [body]\<rparr>"

definition halon_lacpd_exit :: "unixctl_conn \<Rightarrow> 'r daemon \<Rightarrow> unixctl_conn \<times> 'r daemon" where
  "halon_lacpd_exit conn s = (unixctl_command_reply conn None, s\<lparr>exiting := True\<rparr>)"

text \<open>
  Modelled from the spec: \<^verbatim>\<open>lacpd_debug_dump(&ds, argc, argv)\<close> is called by
  \<^verbatim>\<open>lacpd_unixctl_dump\<close> and defined outside the sources. The spec describes it as
  \<open>reportDebugState(filter) -> text\<close>, a "read-only dump of all Port/Aggregator state":
  it appends to the dynamic string the text it renders from the Port/Aggregator state \<open>pa\<close>
  and the arguments, and hands the state back as it was. How the text is laid out is not
  given; it is the parameter \<open>render\<close>.
\<close>

definition lacpd_debug_dump ::
  "('pa \<Rightarrow> string list \<Rightarrow> string) \<Rightarrow> string \<Rightarrow> string list \<Rightarrow> 'pa \<Rightarrow> string \<times> 'pa" where
  "lacpd_debug_dump render ds argv pa = (ds @ render pa argv, pa)"

text \<open>
  \<^verbatim>\<open>struct ds ds = DS_EMPTY_INITIALIZER\<close> is the empty string; \<^verbatim>\<open>ds_cstr\<close> reads it and
  \<^verbatim>\<open>ds_destroy\<close> frees it, so nothing of it is left in the result.
\<close>

definition lacpd_unixctl_dump ::
  "('pa \<Rightarrow> string list \<Rightarrow> string) \<Rightarrow> unixctl_conn \<Rightarrow> string list \<Rightarrow> 'pa \<Rightarrow> unixctl_conn \<times> 'pa" where
  "lacpd_unixctl_dump render conn argv pa =
     (case lacpd_debug_dump render [] argv pa of
        (ds, pa1) \<Rightarrow> (unixctl_command_reply conn (Some ds), pa1))"

section \<open>Observations and example inputs\<close>

text \<open>The threads that exist when \<^verbatim>\<open>lacpd_init\<close> has returned or has called \<^verbatim>\<open>exit\<close>.\<close>

definition threads_after_init :: "string \<Rightarrow> int \<Rightarrow> 'r daemon \<Rightarrow> thread_entry list" where
  "threads_after_init db_path rc s =
     (case lacpd_init db_path rc s of Inl (status, s1) \<Rightarrow> threads s1 | Inr s1 \<Rightarrow> threads s1)"

text \<open>
  The value the option loop leaves in \<^verbatim>\<open>*unixctl_pathp\<close> when it runs to its end: the
  argument of the last \<^verbatim>\<open>--unixctl\<close>, or what was there before.
\<close>

definition last_unixctl :: "(int \<times> string) list \<Rightarrow> string option \<Rightarrow> string option" where
  "last_unixctl opts p = fold (\<lambda>(c, optarg) p. if c = OPT_UNIXCTL then Some optarg else p) opts p"

text \<open>
  The timer handler as a producer of the queue under interleaving: the record it builds,
  and the events of its enqueue by thread \<open>n\<close> when the list element is allocated, the call
  and its four steps.
\<close>

definition timer_record :: "int \<Rightarrow> 'r::zero ML_event" where
  "timer_record idx = \<lparr>sender_peer = idx, other_fields = 0\<rparr>"

definition timer_enqueue :: "nat \<Rightarrow> 'r::zero ML_event \<Rightarrow> 'r ML_event mq_event list" where
  "timer_enqueue n ev =
     [Call_send n ev True, Step_producer n, Step_producer n, Step_producer n, Step_producer n]"

text \<open>
  A daemon as \<^verbatim>\<open>main\<close> has it on entering its signal loop, a block as \<^verbatim>\<open>malloc\<close> may
  return it, one interleaving of two producers and the consumer, and one interleaving in
  which the timer handler calls the enqueue while the consumer holds the mutex.
\<close>

definition example_daemon :: "nat daemon" where
  "example_daemon = \<lparr>ml_timer_index = 3, lacpd_shutdown = 0, exiting = False,
     mailbox = mqueue_init, vlog = [], event_rcvr_ready = True, all_signals_blocked = True,
     ovsdb_path = Some ''unix:/var/run/openvswitch/db.sock'',
     unixctl_commands = [(''exit'', Cb_halon_lacpd_exit), (''lacpd/dump'', Cb_lacpd_unixctl_dump)],
     threads = [Entry_lacpd_ovs_main_thread], itimer_real = Some main_timerVal\<rparr>"

definition example_block :: "nat ML_event" where
  "example_block = \<lparr>sender_peer = - 1, other_fields = 77\<rparr>"

definition example_schedule :: "nat mq_event list" where
  "example_schedule = [Call_send 0 11 True, Step_producer 0, Call_wait, Call_send 1 22 True,
     Step_producer 0, Step_producer 0, Step_producer 0, Step_consumer, Step_producer 1,
     Step_producer 1, Step_producer 1, Step_producer 1, Step_consumer, Step_consumer,
     Step_consumer]"

definition contended_schedule :: "nat ML_event mq_event list" where
  "contended_schedule =
     timer_enqueue 0 (timer_record 3) @ [Call_wait, Step_consumer, Step_consumer,
       Call_send 0 (timer_record 3) True]"

section \<open>The mailbox queue: invariant of the reachable states\<close>

lemma filter_none: "\<forall>i<length ps. \<not> P (ps ! i) \<Longrightarrow> filter P ps = []"
  by (auto simp add: filter_empty_conv in_set_conv_nth)

lemma filter_single:
  "k < length ps \<Longrightarrow> \<forall>i<length ps. P (ps ! i) = (i = k) \<Longrightarrow> length (filter P ps) = 1"
proof (induction ps arbitrary: k)
  case Nil
  then show ?case by simp
next
  case (Cons p ps)
  show ?case
  proof (cases k)
    case 0
    with Cons.prems have "P p" by auto
    moreover from Cons.prems 0 have "\<forall>i<length ps. \<not> P (ps ! i)" by auto
    then have "filter P ps = []" by (rule filter_none)
    ultimately show ?thesis by simp
  next
    case (Suc k')
    with Cons.prems have "\<not> P p" by auto
    moreover from Cons.prems Suc
    have "k' < length ps" "\<forall>i<length ps. P (ps ! i) = (i = k')" by auto
    then have "length (filter P ps) = 1" by (rule Cons.IH)
    ultimately show ?thesis by simp
  qed
qed

lemma mq_inv_start: "mq_inv (mq_start n)"
  by (simp add: mq_inv_def mq_start_def mqueue_init_def pending_def unposted_def)

lemma inv_holder_producer:
  "mq_inv s \<Longrightarrow> i < length (producers s) \<Longrightarrow>
   send_in_cs (producers s ! i) = (holder s = Held_by_producer i)"
  by (simp add: mq_inv_def)

lemma inv_call_send:
  assumes inv: "mq_inv s" and st: "mq_step (Call_send n d ok) s = Some s1"
  shows "mq_inv s1"
proof -
  from st have n: "n < length (producers s)" and idle: "producers s ! n = S_idle"
    by (auto split: if_splits send_pc.splits)
  from inv_holder_producer[OF inv n] idle have h: "holder s \<noteq> Held_by_producer n" by simp
  show ?thesis using inv st n idle h
    by (auto simp add: mq_inv_def pending_def unposted_def nth_list_update
        split: if_splits send_pc.splits owner.splits)
qed

lemma inv_call_wait: "mq_inv s \<Longrightarrow> mq_step Call_wait s = Some s1 \<Longrightarrow> mq_inv s1"
  by (auto simp add: mq_inv_def pending_def unposted_def
      split: if_splits wait_pc.splits owner.splits)

lemma inv_step_consumer: "mq_inv s \<Longrightarrow> mq_step Step_consumer s = Some s1 \<Longrightarrow> mq_inv s1"
  by (cases "consumer s")
    (auto simp add: mq_inv_def pending_def unposted_def mq_lock_def mq_unlock_def
      mq_sem_trywait_def mq_remque_head_def
      split: if_splits wait_pc.splits owner.splits option.splits list.splits)

lemma inv_step_producer:
  assumes inv: "mq_inv s" and st: "mq_step (Step_producer n) s = Some s1"
  shows "mq_inv s1"
proof -
  from st have n: "n < length (producers s)"
    by (auto split: if_splits)
  note h = inv_holder_producer[OF inv n]
  show ?thesis
  proof (cases "producers s ! n")
    case S_idle
    then show ?thesis using st n by simp
  next
    case (S_lock d)
    then show ?thesis using inv st n h
      by (auto simp add: mq_inv_def pending_def unposted_def nth_list_update mq_lock_def
          split: if_splits owner.splits)
  next
    case (S_insque d)
    then show ?thesis using inv st n h
      by (auto simp add: mq_inv_def pending_def unposted_def nth_list_update mq_insque_tail_def
          split: if_splits owner.splits)
  next
    case (S_post d)
    then show ?thesis using inv st n h
      by (auto simp add: mq_inv_def pending_def unposted_def nth_list_update mq_sem_post_def
          split: if_splits owner.splits)
  next
    case (S_unlock d)
    then show ?thesis using inv st n h
      by (auto simp add: mq_inv_def pending_def unposted_def nth_list_update mq_unlock_def
          split: if_splits owner.splits)
  qed
qed

lemma mq_inv_step: "mq_inv s \<Longrightarrow> mq_step e s = Some s1 \<Longrightarrow> mq_inv s1"
  by (cases e) (auto intro: inv_call_send inv_call_wait inv_step_producer inv_step_consumer)

lemma mq_inv_run: "mq_inv s \<Longrightarrow> mq_run evs s = Some s1 \<Longrightarrow> mq_inv s1"
proof (induction evs arbitrary: s)
  case Nil
  then show ?case by simp
next
  case (Cons e evs)
  from Cons.prems(2) obtain s2 where e: "mq_step e s = Some s2" and r: "mq_run evs s2 = Some s1"
    by (auto split: option.splits)
  from mq_inv_step[OF Cons.prems(1) e] have "mq_inv s2" .
  from Cons.IH[OF this r] show ?case .
qed

lemma mq_inv_reachable: "mq_run evs (mq_start n) = Some s \<Longrightarrow> mq_inv s"
  using mq_inv_run[OF mq_inv_start] .

lemma inv_cs_count:
  assumes inv: "mq_inv s"
  shows "in_cs_count s = (if q_mutex (queue s) then 1 else 0)"
proof (cases "holder s")
  case Free
  with inv have "\<forall>i<length (producers s). \<not> send_in_cs (producers s ! i)"
    "\<not> wait_in_cs (consumer s)" "\<not> q_mutex (queue s)"
    by (simp_all add: mq_inv_def)
  then show ?thesis by (simp add: in_cs_count_def filter_none)
next
  case Held_by_consumer
  with inv have "\<forall>i<length (producers s). \<not> send_in_cs (producers s ! i)"
    "wait_in_cs (consumer s)" "q_mutex (queue s)"
    by (simp_all add: mq_inv_def)
  then show ?thesis by (simp add: in_cs_count_def filter_none)
next
  case (Held_by_producer k)
  with inv have k: "k < length (producers s)"
    and "\<forall>i<length (producers s). send_in_cs (producers s ! i) = (i = k)"
    and c: "\<not> wait_in_cs (consumer s)" "q_mutex (queue s)"
    by (auto simp add: mq_inv_def)
  then have "length (filter send_in_cs (producers s)) = 1" by (intro filter_single)
  with c show ?thesis by (simp add: in_cs_count_def)
qed

lemma inv_quiescent:
  assumes inv: "mq_inv s" and q: "quiescent s"
  shows "holder s = Free"
proof (cases "holder s")
  case Free
  then show ?thesis .
next
  case Held_by_consumer
  with inv q show ?thesis by (cases "consumer s") (simp_all add: mq_inv_def quiescent_def)
next
  case (Held_by_producer k)
  with inv have k: "k < length (producers s)" and "send_in_cs (producers s ! k)"
    by (auto simp add: mq_inv_def)
  moreover from q k have "send_idle (producers s ! k)"
    by (simp add: quiescent_def list_all_length)
  ultimately show ?thesis by (cases "producers s ! k") simp_all
qed

text \<open>
  Where a producer can wait, that the holder of the mutex can go on, and that a producer
  outside the lock and unlock of its call does not hold the mutex.
\<close>

lemma producer_step_blocked:
  "(producer_step n pc s = None) = (pc = S_idle \<or> (\<exists>d. pc = S_lock d \<and> q_mutex (queue s)))"
  by (cases pc) simp_all

lemma inv_holder_can_step:
  assumes inv: "mq_inv s" and h: "holder s \<noteq> Free"
  shows "holder_step s \<noteq> None"
proof (cases "holder s")
  case Free
  with h show ?thesis by simp
next
  case Held_by_consumer
  with inv have "wait_in_cs (consumer s)" by (simp add: mq_inv_def)
  then show ?thesis using Held_by_consumer
    by (cases "consumer s")
      (simp_all add: holder_step_def mq_remque_head_def split: list.splits)
next
  case (Held_by_producer m)
  with inv have m: "m < length (producers s)" and "send_in_cs (producers s ! m)"
    by (auto simp add: mq_inv_def)
  then show ?thesis using Held_by_producer
    by (cases "producers s ! m") (simp_all add: holder_step_def)
qed

lemma inv_waiter_not_holder:
  assumes inv: "mq_inv s" and n: "n < length (producers s)"
    and pc: "producers s ! n = S_idle \<or> producers s ! n = S_lock d"
  shows "holder s \<noteq> Held_by_producer n"
  using inv_holder_producer[OF inv n] pc by auto

text \<open>
  \<open>mqueue_send\<close> and \<open>mqueue_wait\<close> are the steps of one call taken without another thread
  in between.
\<close>

lemma send_uninterrupted:
  assumes "n < length (producers s)" and "producers s ! n = S_idle" and "\<not> q_mutex (queue s)"
  shows "mq_run [Call_send n d True, Step_producer n, Step_producer n, Step_producer n,
                 Step_producer n] s =
         Some (s\<lparr>queue := snd (mqueue_send True (queue s) d), holder := Free,
                 completed := completed s @ [d]\<rparr>)"
proof -
  from assms(2) have "(producers s)[n := S_idle] = producers s"
    by (metis list_update_id)
  with assms show ?thesis
    by (simp add: mqueue_send_def mq_lock_def)
qed

lemma send_refused:
  assumes "n < length (producers s)" and "producers s ! n = S_idle"
  shows "mq_run [Call_send n d False] s = Some (s\<lparr>refused := refused s @ [d]\<rparr>)
       \<and> mqueue_send False (queue s) d = (ENOMEM, queue s)"
  using assms by (simp add: mqueue_send_def)

lemma wait_uninterrupted:
  assumes "consumer s = W_idle" and "\<not> q_mutex (queue s)"
  shows "mq_run [Call_wait, Step_consumer, Step_consumer, Step_consumer, Step_consumer] s =
         (case mqueue_wait (queue s) of
            None \<Rightarrow> None
          | Some (None, q) \<Rightarrow> Some (s\<lparr>queue := q, holder := Free, corrupted := True\<rparr>)
          | Some (Some d, q) \<Rightarrow>
              Some (s\<lparr>queue := q, holder := Free, delivered := delivered s @ [d]\<rparr>))"
  using assms
  by (simp add: mqueue_wait_def mq_sem_trywait_def mq_lock_def mq_remque_head_def
      split: list.splits)

lemma contended_schedule_run:
  "mq_run contended_schedule (mq_start 1) =
     Some \<lparr>queue = \<lparr>q_elems = [timer_record 3], q_mutex = True, q_avail = 0\<rparr>,
       producers = [S_lock (timer_record 3)], consumer = W_remque, holder = Held_by_consumer,
       completed = [timer_record 3], refused = [], delivered = [], corrupted = False\<rparr>"
  by (simp add: contended_schedule_def timer_enqueue_def mq_start_def mqueue_init_def
      mq_lock_def mq_unlock_def mq_insque_tail_def mq_sem_post_def mq_sem_trywait_def
      mq_remque_head_def)

lemma example_schedule_run:
  "mq_run example_schedule (mq_start 2) =
     Some \<lparr>queue = \<lparr>q_elems = [22], q_mutex = False, q_avail = 1\<rparr>,
       producers = [S_idle, S_idle], consumer = W_idle, holder = Free, completed = [11, 22],
       refused = [], delivered = [11], corrupted = False\<rparr>"
  by (simp add: example_schedule_def mq_start_def mqueue_init_def mq_lock_def mq_unlock_def
      mq_insque_tail_def mq_sem_post_def mq_sem_trywait_def mq_remque_head_def numeral_2_eq_2)

section \<open>The mailbox queue: calls without interleaving\<close>

lemma mqueue_send_ok:
  "mqueue_send True q d =
     (0, q\<lparr>q_elems := q_elems q @ [d], q_mutex := False, q_avail := Suc (q_avail q)\<rparr>)"
  by (simp add: mqueue_send_def mq_lock_def mq_unlock_def mq_insque_tail_def mq_sem_post_def)

lemma mqueue_wait_head:
  "q_avail q = Suc k \<Longrightarrow> q_elems q = d # ds \<Longrightarrow>
   mqueue_wait q = Some (Some d, q\<lparr>q_elems := ds, q_mutex := False, q_avail := k\<rparr>)"
  by (simp add: mqueue_wait_def mq_sem_trywait_def mq_lock_def mq_unlock_def mq_remque_head_def)

lemma mqueue_wait_blocks: "q_avail q = 0 \<Longrightarrow> mqueue_wait q = None"
  by (simp add: mqueue_wait_def mq_sem_trywait_def)

lemma mqueue_send_all_eq:
  "\<not> q_mutex q \<Longrightarrow>
   mqueue_send_all ds q = q\<lparr>q_elems := q_elems q @ ds, q_avail := q_avail q + length ds\<rparr>"
  by (induction ds arbitrary: q) (simp_all add: mqueue_send_ok)

lemma mqueue_wait_n_all:
  "\<not> q_mutex q \<Longrightarrow> q_avail q = length (q_elems q) \<Longrightarrow>
   mqueue_wait_n (length (q_elems q)) q = Some (map Some (q_elems q), q\<lparr>q_elems := [], q_avail := 0\<rparr>)"
proof (induction "q_elems q" arbitrary: q)
  case Nil
  then show ?case by simp
next
  case (Cons d ds)
  from Cons.hyps(2) have e: "q_elems q = d # ds" by simp
  with Cons.prems have a: "q_avail q = Suc (length ds)" by simp
  let ?q1 = "q\<lparr>q_elems := ds, q_mutex := False, q_avail := length ds\<rparr>"
  from mqueue_wait_head[OF a e] have w: "mqueue_wait q = Some (Some d, ?q1)" .
  have "ds = q_elems ?q1" by simp
  from Cons.hyps(1)[OF this] have "mqueue_wait_n (length ds) ?q1 = Some (map Some ds, ?q1\<lparr>q_elems := [], q_avail := 0\<rparr>)"
    by simp
  with w e Cons.prems(1) show ?case by simp
qed

lemma mqueue_sequential_fifo:
  fixes ds :: "'a list"
  shows "mqueue_wait_n (length ds) (mqueue_send_all ds mqueue_init) = Some (map Some ds, mqueue_init)
   \<and> mqueue_wait (mqueue_init :: 'a mqueue) = None"
proof -
  have m: "\<not> q_mutex (mqueue_init :: 'a mqueue)" by (simp add: mqueue_init_def)
  let ?q = "mqueue_send_all ds (mqueue_init :: 'a mqueue)"
  from mqueue_send_all_eq[OF m, of ds] have q: "?q = \<lparr>q_elems = ds, q_mutex = False, q_avail = length ds\<rparr>"
    by (simp add: mqueue_init_def)
  then have "\<not> q_mutex ?q" "q_avail ?q = length (q_elems ?q)" by simp_all
  from mqueue_wait_n_all[OF this] q show ?thesis
    by (simp add: mqueue_init_def mqueue_wait_blocks)
qed

lemma mqueue_count_preserved:
  "q_avail q = length (q_elems q) \<Longrightarrow>
     q_avail (snd (mqueue_send ok q d)) = length (q_elems (snd (mqueue_send ok q d)))
   \<and> (\<forall>r q1. mqueue_wait q = Some (r, q1) \<longrightarrow> q_avail q1 = length (q_elems q1) \<and> r \<noteq> None)"
  by (auto simp add: mqueue_send_def mq_lock_def mq_unlock_def mq_insque_tail_def mq_sem_post_def
       mqueue_wait_def mq_sem_trywait_def mq_remque_head_def split: if_splits list.splits)

section \<open>The mailbox queue: order and count\<close>

text \<open>
  Claim C3. Start from the initialised queue with any number of producers and the one
  consumer, and let their calls of \<^verbatim>\<open>mqueue_send\<close> and \<^verbatim>\<open>mqueue_wait\<close> interleave in any
  way. In every state reached, the records of the enqueues that have completed, in the order
  they completed, followed by the record linked by an enqueue still in progress, are the
  records the dequeues have returned, in the order they were returned, followed by the
  record a dequeue in progress has unlinked and by the list from head to tail. So what the
  dequeues have returned is an initial piece of what the enqueues completed, in the same
  order; at a quiescent point the rest is exactly the list; and the head is never unlinked
  from an empty list. Without interleaving: after the enqueues of any list of records, as
  many dequeues return these records in the order of the list, none of them blocks, and
  the queue is left as it was initialised.
\<close>

theorem mqueue_fifo:
  assumes "mq_run evs (mq_start n) = Some s"
  shows "completed s @ pending s = delivered s @ wait_taken (consumer s) @ q_elems (queue s)
       \<and> (\<exists>rest. completed s = delivered s @ rest)
       \<and> (quiescent s \<longrightarrow> completed s = delivered s @ q_elems (queue s))
       \<and> \<not> corrupted s
       \<and> mqueue_wait_n (length ds) (mqueue_send_all ds mqueue_init) =
           Some (map Some ds, mqueue_init)"
proof -
  from mq_inv_reachable[OF assms] have inv: "mq_inv s" .
  then have eq: "completed s @ pending s =
      delivered s @ wait_taken (consumer s) @ q_elems (queue s)"
    and nc: "\<not> corrupted s"
    by (simp_all add: mq_inv_def)
  from inv obtain xs where xs: "q_elems (queue s) = xs @ pending s"
    by (auto simp add: mq_inv_def)
  with eq have "completed s = delivered s @ wait_taken (consumer s) @ xs" by simp
  then have pre: "\<exists>rest. completed s = delivered s @ rest" by blast
  have "completed s = delivered s @ q_elems (queue s)" if q: "quiescent s"
  proof -
    from inv_quiescent[OF inv q] have "pending s = []" by (simp add: pending_def)
    moreover from q have "wait_taken (consumer s) = []"
      by (cases "consumer s") (simp_all add: quiescent_def)
    ultimately show ?thesis using eq by simp
  qed
  with eq pre nc mqueue_sequential_fifo[of ds] show ?thesis by blast
qed

theorem mqueue_fifo_witness:
  "map_option completed (mq_run example_schedule (mq_start 2)) = Some [11, 22]
   \<and> map_option delivered (mq_run example_schedule (mq_start 2)) = Some [11]
   \<and> map_option (\<lambda>s. q_elems (queue s)) (mq_run example_schedule (mq_start 2)) = Some [22]
   \<and> map_option corrupted (mq_run example_schedule (mq_start 2)) = Some False"
  using mqueue_fifo [OF example_schedule_run]
  by (simp add: example_schedule_run quiescent_def)

text \<open>
  Claim C4. In every state reached by interleaved calls of \<^verbatim>\<open>mqueue_send\<close> and
  \<^verbatim>\<open>mqueue_wait\<close> from the initialised queue: at a quiescent point the count of the semaphore
  is the number of records in the list and the mutex is free; at any point the count, plus
  one for a consumer that has passed the semaphore and not yet unlinked its record, plus
  one for a producer that has linked its record and not yet posted, is the number of
  records in the list; and the number of threads between their lock and their unlock is one
  when the mutex is locked and none when it is free. Taken as a whole, an enqueue (whether
  its allocation succeeds or not) and a dequeue that returns each lead from a queue whose
  count is the number of its records to such a queue, and the dequeue returns a record.
\<close>

theorem mqueue_semaphore_counts_records:
  assumes "mq_run evs (mq_start n) = Some s"
  shows "(quiescent s \<longrightarrow>
            q_avail (queue s) = length (q_elems (queue s)) \<and> \<not> q_mutex (queue s))
       \<and> q_avail (queue s) + wait_admitted (consumer s) + unposted s =
           length (q_elems (queue s))
       \<and> in_cs_count s = (if q_mutex (queue s) then 1 else 0)
       \<and> (q_avail q = length (q_elems q) \<longrightarrow>
            q_avail (snd (mqueue_send ok q d)) = length (q_elems (snd (mqueue_send ok q d)))
          \<and> (\<forall>r q1. mqueue_wait q = Some (r, q1) \<longrightarrow>
                q_avail q1 = length (q_elems q1) \<and> r \<noteq> None))"
proof -
  from mq_inv_reachable[OF assms] have inv: "mq_inv s" .
  then have eq: "q_avail (queue s) + wait_admitted (consumer s) + unposted s =
      length (q_elems (queue s))"
    by (simp add: mq_inv_def)
  have "q_avail (queue s) = length (q_elems (queue s)) \<and> \<not> q_mutex (queue s)"
    if q: "quiescent s"
  proof -
    from inv_quiescent[OF inv q] have h: "holder s = Free" .
    then have "unposted s = 0" by (simp add: unposted_def)
    moreover from q have "wait_admitted (consumer s) = 0"
      by (cases "consumer s") (simp_all add: quiescent_def)
    moreover from inv h have "\<not> q_mutex (queue s)" by (simp add: mq_inv_def)
    ultimately show ?thesis using eq by simp
  qed
  with eq inv_cs_count[OF inv] mqueue_count_preserved[of q ok d] show ?thesis by blast
qed

theorem mqueue_semaphore_counts_records_witness:
  "map_option quiescent (mq_run example_schedule (mq_start 2)) = Some True
   \<and> map_option (\<lambda>s. q_avail (queue s)) (mq_run example_schedule (mq_start 2)) = Some 1
   \<and> map_option (\<lambda>s. length (q_elems (queue s))) (mq_run example_schedule (mq_start 2)) =
       Some 1
   \<and> map_option (\<lambda>s. q_mutex (queue s)) (mq_run example_schedule (mq_start 2)) = Some False"
  using mqueue_semaphore_counts_records [OF example_schedule_run]
  by (simp add: example_schedule_run quiescent_def)

section \<open>lacpd.c: the signal loop\<close>

lemma timerHandler_shutdown: "lacpd_shutdown (timerHandler b e s) = lacpd_shutdown s"
  by (simp add: timerHandler_def ml_send_event_def mqueue_send_def log_msg_def
      split: option.splits)

lemma main_switch_shutdown:
  "signum w \<noteq> SIGTERM \<Longrightarrow> signum w \<noteq> SIGINT \<Longrightarrow>
   lacpd_shutdown (main_switch w s) = lacpd_shutdown s"
  by (simp add: main_switch_def timerHandler_shutdown log_msg_def)

lemma main_loop_prefix:
  "lacpd_shutdown s = 0 \<Longrightarrow> \<forall>w\<in>set pre. signum w \<noteq> SIGTERM \<and> signum w \<noteq> SIGINT \<Longrightarrow>
   main_loop s (pre @ rest) = main_loop (fold main_switch pre s) rest
   \<and> lacpd_shutdown (fold main_switch pre s) = 0"
  by (induction pre arbitrary: s) (simp_all add: main_switch_shutdown)

lemma main_switch_term:
  "signum t = SIGTERM \<or> signum t = SIGINT \<Longrightarrow>
   main_switch t s =
     s\<lparr>vlog := vlog s @ [(VLL_WARN, ''%s, sig %d caught'', [Str ''main'', Num (signum t)])],
       lacpd_shutdown := 1\<rparr>"
  by (auto simp add: main_switch_def log_msg_def SIGTERM_def SIGINT_def SIGALRM_def)

lemma main_loop_exit_needs_term:
  "lacpd_shutdown s = 0 \<Longrightarrow> main_loop s ws = (s1, rest, Loop_exited) \<Longrightarrow>
   \<exists>w\<in>set ws. signum w = SIGTERM \<or> signum w = SIGINT"
proof (induction ws arbitrary: s)
  case Nil
  then show ?case by simp
next
  case (Cons w ws)
  show ?case
  proof (cases "signum w = SIGTERM \<or> signum w = SIGINT")
    case True
    then show ?thesis by auto
  next
    case False
    with Cons.prems(1) have "lacpd_shutdown (main_switch w s) = 0"
      by (simp add: main_switch_shutdown)
    moreover from Cons.prems have "main_loop (main_switch w s) ws = (s1, rest, Loop_exited)"
      by simp
    ultimately have "\<exists>w\<in>set ws. signum w = SIGTERM \<or> signum w = SIGINT" by (rule Cons.IH)
    then show ?thesis by auto
  qed
qed

text \<open>
  Claim C1, as amended. On a firing of the interval timer (\<^verbatim>\<open>sigwait\<close> returns
  \<^verbatim>\<open>SIGALRM\<close>) at which \<^verbatim>\<open>malloc\<close> returns a block, the handler builds one record, all of
  it zero but \<^verbatim>\<open>sender.peer\<close>, which is the timer index, hands this record once to
  \<^verbatim>\<open>ml_send_event\<close>, and does nothing else. When the enqueue succeeds, the whole change of
  the state is this record at the tail of the mailbox queue and one more count of its
  semaphore. At a firing at which \<^verbatim>\<open>malloc\<close> returns \<^verbatim>\<open>NULL\<close> the mailbox queue is left as
  it was. The timer \<^verbatim>\<open>main\<close> starts has a first delay and an interval of one second.
\<close>

theorem timer_tick_enqueues_one_event:
  assumes "signum w = SIGALRM"
  shows "(timer_block w = Some b \<longrightarrow>
            main_switch w s =
              ml_send_event (elem_ok w) \<lparr>sender_peer = ml_timer_index s, other_fields = 0\<rparr> s
          \<and> (elem_ok w \<longrightarrow> main_switch w s =
                s\<lparr>mailbox := (mailbox s)\<lparr>q_elems := q_elems (mailbox s) @
                      [\<lparr>sender_peer = ml_timer_index s, other_fields = 0\<rparr>],
                    q_mutex := False, q_avail := Suc (q_avail (mailbox s))\<rparr>\<rparr>))
       \<and> (timer_block w = None \<longrightarrow> mailbox (main_switch w s) = mailbox s)
       \<and> itimer_real (main_timer_start 0 s) =
           Some \<lparr>it_interval = \<lparr>tv_sec = 1, tv_usec = 0\<rparr>,
                 it_value = \<lparr>tv_sec = 1, tv_usec = 0\<rparr>\<rparr>"
  using assms
  by (simp add: main_switch_def timerHandler_def memset_zero_def ml_send_event_def
      mqueue_send_def mq_lock_def mq_unlock_def mq_insque_tail_def mq_sem_post_def
      main_timer_start_def main_timerVal_def log_msg_def)

theorem timer_tick_enqueues_one_event_witness:
  "main_switch (Wakeup SIGALRM (Some example_block) True) example_daemon =
     example_daemon\<lparr>mailbox :=
       \<lparr>q_elems = [\<lparr>sender_peer = 3, other_fields = 0\<rparr>], q_mutex = False, q_avail = 1\<rparr>\<rparr>"
proof -
  have a: "signum (Wakeup SIGALRM (Some example_block) True) = SIGALRM" by simp
  have b: "timer_block (Wakeup SIGALRM (Some example_block) True) = Some example_block"
    by simp
  from timer_tick_enqueues_one_event [OF a, THEN conjunct1, rule_format, OF b,
      THEN conjunct2, of example_daemon]
  show ?thesis by (simp add: example_daemon_def mqueue_init_def)
qed

text \<open>
  Claim C1 as it is stated, for every firing, fails at a firing at which \<^verbatim>\<open>malloc\<close> returns
  \<^verbatim>\<open>NULL\<close>: no record is built, the mailbox queue stays empty, and the handler writes a log
  line instead.
\<close>

theorem timer_tick_without_memory:
  "q_elems (mailbox (main_switch (Wakeup SIGALRM None True) example_daemon)) \<noteq>
     q_elems (mailbox example_daemon) @ [\<lparr>sender_peer = 3, other_fields = 0\<rparr>]
   \<and> q_elems (mailbox (main_switch (Wakeup SIGALRM None True) example_daemon)) = []
   \<and> main_switch (Wakeup SIGALRM None True) example_daemon =
       example_daemon\<lparr>vlog := [(DL_ERROR, ''Out of memory for LACP timer message.\<newline>'', [])]\<rparr>"
  by (simp add: main_switch_def timerHandler_def log_msg_def example_daemon_def mqueue_init_def)

text \<open>
  Claim C2, as amended. When the allocation of the event record fails in the timer handler,
  the failure is logged, the mailbox queue is left exactly as it was, the handler returns,
  and the signal loop goes on with the next signal. The log line is the whole change of the
  state: the handler gives its caller no result, makes no second attempt, and counts
  nothing.
\<close>

theorem timer_alloc_failure_drops_event:
  assumes "signum w = SIGALRM" and "timer_block w = None" and "lacpd_shutdown s = 0"
  shows "main_switch w s =
           s\<lparr>vlog := vlog s @ [(DL_ERROR, ''Out of memory for LACP timer message.\<newline>'', [])]\<rparr>
       \<and> mailbox (main_switch w s) = mailbox s
       \<and> main_loop s (w # ws) = main_loop (main_switch w s) ws"
  using assms by (simp add: main_switch_def timerHandler_def log_msg_def)

theorem timer_alloc_failure_drops_event_witness:
  "mailbox (main_switch (Wakeup SIGALRM None False) example_daemon) = mqueue_init
   \<and> main_loop example_daemon [Wakeup SIGALRM None False] =
       (example_daemon
          \<lparr>vlog := [(DL_ERROR, ''Out of memory for LACP timer message.\<newline>'', [])]\<rparr>,
        [], Blocked_in_sigwait)"
proof -
  have a: "signum (Wakeup SIGALRM None False) = SIGALRM" by simp
  have b: "timer_block (Wakeup SIGALRM None False) = None" by simp
  have c: "lacpd_shutdown example_daemon = 0" by (simp add: example_daemon_def)
  from timer_alloc_failure_drops_event [OF a b c, of "[]"]
  show ?thesis by (simp add: example_daemon_def)
qed

text \<open>
  Claim C2 as it is stated asks for a retry or a drop that is counted. After a firing
  that finds no memory and a firing that finds some, the state differs from the one before
  in the second firing's record and in the one log line only: the first firing's record
  was never enqueued, and no variable of the daemon has counted it.
\<close>

theorem dropped_tick_not_counted_not_retried:
  "length (q_elems (mailbox (fst (main_loop example_daemon
          [Wakeup SIGALRM None True, Wakeup SIGALRM (Some example_block) True])))) \<noteq> 2
   \<and> fst (main_loop example_daemon
          [Wakeup SIGALRM None True, Wakeup SIGALRM (Some example_block) True]) =
     example_daemon
       \<lparr>mailbox :=
          \<lparr>q_elems = [\<lparr>sender_peer = 3, other_fields = 0\<rparr>], q_mutex = False, q_avail = 1\<rparr>,
        vlog := [(DL_ERROR, ''Out of memory for LACP timer message.\<newline>'', [])]\<rparr>"
  by (simp add: main_switch_def timerHandler_def log_msg_def example_daemon_def mqueue_init_def
      memset_zero_def ml_send_event_def mqueue_send_def mq_lock_def mq_unlock_def
      mq_insque_tail_def mq_sem_post_def SIGALRM_def)

lemma timerHandler_mailbox:
  "mailbox (timerHandler (Some b) True t) =
     snd (mqueue_send True (mailbox t) (timer_record (ml_timer_index t)))"
  by (simp add: timerHandler_def ml_send_event_def memset_zero_def timer_record_def
      mqueue_send_def)

text \<open>
  Claim C6, as amended. The timer handler is called by the signal loop of \<^verbatim>\<open>main\<close> for a
  \<^verbatim>\<open>SIGALRM\<close> that \<^verbatim>\<open>sigwait\<close> has returned, with all signals blocked by \<^verbatim>\<open>lacpd_init\<close>, and
  not from an asynchronous signal handler. It performs no I/O when its allocations succeed,
  and writes one line to the log when an allocation fails. Its enqueue, taken as thread \<open>n\<close>
  of the queue under interleaving, is the enqueue of \<^verbatim>\<open>ml_send_event\<close> when the mutex is
  free; inside the enqueue the only step that can wait is the lock of the mutex, and only
  while the mutex is held; the thread that holds it then is another one, and it can take
  its next step. The handler never allocates while the same thread holds the queue's mutex:
  a thread that is about to call the enqueue, which is where both allocations are made,
  does not hold it.
\<close>

theorem timerHandler_blocking_and_io:
  assumes "mq_run evs (mq_start k) = Some s"
  shows "(signum w = SIGALRM \<longrightarrow> main_switch w t = timerHandler (timer_block w) (elem_ok w) t)
       \<and> (case lacpd_init db_path 0 t of Inl x \<Rightarrow> False | Inr t1 \<Rightarrow> all_signals_blocked t1)
       \<and> vlog (timerHandler (Some b) True t) = vlog t
       \<and> vlog (timerHandler None e t) =
           vlog t @ [(DL_ERROR, ''Out of memory for LACP timer message.\<newline>'', [])]
       \<and> length (vlog (timerHandler (Some b) False t)) = Suc (length (vlog t))
       \<and> (n < length (producers s) \<and> producers s ! n = S_idle \<and> \<not> q_mutex (queue s)
            \<and> queue s = mailbox t \<longrightarrow>
            map_option queue (mq_run (timer_enqueue n (timer_record (ml_timer_index t))) s) =
              Some (mailbox (timerHandler (Some b) True t)))
       \<and> (producer_step n pc s = None) =
           (pc = S_idle \<or> (\<exists>d. pc = S_lock d \<and> q_mutex (queue s)))
       \<and> (n < length (producers s) \<and> producers s ! n = S_lock d \<and> q_mutex (queue s) \<longrightarrow>
            holder s \<noteq> Held_by_producer n \<and> holder_step s \<noteq> None)
       \<and> (mq_step (Call_send n d ok) s \<noteq> None \<longrightarrow> holder s \<noteq> Held_by_producer n)"
proof -
  from mq_inv_reachable[OF assms] have inv: "mq_inv s" .
  have io: "vlog (timerHandler (Some b) True t) = vlog t"
    "vlog (timerHandler None e t) =
       vlog t @ [(DL_ERROR, ''Out of memory for LACP timer message.\<newline>'', [])]"
    "length (vlog (timerHandler (Some b) False t)) = Suc (length (vlog t))"
    by (simp_all add: timerHandler_def log_msg_def ml_send_event_def mqueue_send_def
        ENOMEM_def)
  have ctx: "signum w = SIGALRM \<longrightarrow> main_switch w t = timerHandler (timer_block w) (elem_ok w) t"
    "case lacpd_init db_path 0 t of Inl x \<Rightarrow> False | Inr t1 \<Rightarrow> all_signals_blocked t1"
    by (simp_all add: main_switch_def lacpd_init_def)
  have link: "map_option queue (mq_run (timer_enqueue n (timer_record (ml_timer_index t))) s) =
      Some (mailbox (timerHandler (Some b) True t))"
    if "n < length (producers s)" "producers s ! n = S_idle" "\<not> q_mutex (queue s)"
      "queue s = mailbox t"
    using send_uninterrupted[OF that(1,2,3), of "timer_record (ml_timer_index t)"] that(4)
    by (simp add: timer_enqueue_def timerHandler_mailbox)
  have wait: "holder s \<noteq> Held_by_producer n \<and> holder_step s \<noteq> None"
    if "n < length (producers s)" "producers s ! n = S_lock d" "q_mutex (queue s)"
  proof -
    from inv that(3) have "holder s \<noteq> Free" by (simp add: mq_inv_def)
    from inv_holder_can_step[OF inv this] inv_waiter_not_holder[OF inv that(1), of d] that(2)
    show ?thesis by simp
  qed
  have alloc: "holder s \<noteq> Held_by_producer n" if "mq_step (Call_send n d ok) s \<noteq> None"
  proof -
    from that have "n < length (producers s)" "producers s ! n = S_idle"
      by (auto split: if_splits send_pc.splits)
    with inv_waiter_not_holder[OF inv this(1), of d] show ?thesis by simp
  qed
  from io ctx link wait alloc producer_step_blocked[of n pc s] show ?thesis by blast
qed

theorem timerHandler_blocking_and_io_witness:
  "map_option holder (mq_run contended_schedule (mq_start 1)) = Some Held_by_consumer
   \<and> map_option (\<lambda>s. holder_step s = None) (mq_run contended_schedule (mq_start 1)) = Some False
   \<and> map_option queue (mq_run (timer_enqueue 0 (timer_record 3)) (mq_start 1)) =
       Some (mailbox (timerHandler (Some example_block) True example_daemon))
   \<and> main_switch (Wakeup SIGALRM (Some example_block) True) example_daemon =
       timerHandler (Some example_block) True example_daemon"
proof -
  let ?s = "\<lparr>queue = \<lparr>q_elems = [timer_record 3], q_mutex = True, q_avail = 0\<rparr>,
       producers = [S_lock (timer_record 3)], consumer = W_remque, holder = Held_by_consumer,
       completed = [timer_record 3], refused = [], delivered = [], corrupted = False\<rparr>
       :: nat ML_event mq_system"
  have r0: "mq_run [] (mq_start 1) = Some (mq_start 1 :: nat ML_event mq_system)" by simp
  have a: "signum (Wakeup SIGALRM (Some example_block) True) = SIGALRM" by simp
  from timerHandler_blocking_and_io [OF contended_schedule_run,
      where n = 0 and d = "timer_record 3"]
  have "holder_step ?s \<noteq> None" by simp
  moreover
  from timerHandler_blocking_and_io [OF r0, where n = 0 and t = example_daemon
      and b = example_block and w = "Wakeup SIGALRM (Some example_block) True"] a
  have "map_option queue (mq_run (timer_enqueue 0 (timer_record 3)) (mq_start 1)) =
       Some (mailbox (timerHandler (Some example_block) True example_daemon))
     \<and> main_switch (Wakeup SIGALRM (Some example_block) True) example_daemon =
       timerHandler (Some example_block) True example_daemon"
    by (simp add: mq_start_def example_daemon_def mqueue_init_def)
  ultimately show ?thesis by (simp add: contended_schedule_run del: One_nat_def)
qed

text \<open>
  Claim C6 as it is stated says that the handler never blocks and performs no I/O, in an
  asynchronous-signal context. At a firing at which \<^verbatim>\<open>malloc\<close> returns \<^verbatim>\<open>NULL\<close> the log is
  empty before the handler and holds a line after it. When the handler calls the enqueue
  while the consumer stands between its lock and its unlock, the handler is at the lock of
  the mutex and its step cannot be taken. And \<^verbatim>\<open>lacpd_init\<close> has blocked all signals before
  the loop of \<^verbatim>\<open>main\<close> calls the handler, so that no signal is handled asynchronously.
\<close>

theorem timerHandler_blocks_and_logs:
  "vlog (timerHandler None True example_daemon) \<noteq> vlog example_daemon
   \<and> vlog (timerHandler None True example_daemon) =
       [(DL_ERROR, ''Out of memory for LACP timer message.\<newline>'', [])]
   \<and> map_option (\<lambda>s. producers s) (mq_run contended_schedule (mq_start 1)) =
       Some [S_lock (timer_record 3)]
   \<and> map_option consumer (mq_run contended_schedule (mq_start 1)) = Some W_remque
   \<and> map_option (mq_step (Step_producer 0)) (mq_run contended_schedule (mq_start 1)) = Some None
   \<and> (case lacpd_init ''unix:/var/run/openvswitch/db.sock'' 0
              (example_daemon\<lparr>all_signals_blocked := False\<rparr>) of
          Inl x \<Rightarrow> False
        | Inr t \<Rightarrow> all_signals_blocked t)"
  by (simp add: timerHandler_def log_msg_def example_daemon_def contended_schedule_run
      lacpd_init_def del: One_nat_def)

text \<open>
  Claim C7. Let the shutdown flag be clear and let \<^verbatim>\<open>SIGTERM\<close> or \<^verbatim>\<open>SIGINT\<close> be delivered
  after any signals that are neither. Then the loop handles the signals before it, sets the
  flag on it, and is left: the signals after it are not taken from \<^verbatim>\<open>sigwait\<close>, and the
  mailbox queue is the one the signals before it left, so no timer event is produced once
  the terminating signal has arrived.
\<close>

theorem sigterm_shutdown:
  assumes "lacpd_shutdown s = 0"
    and "\<forall>w\<in>set pre. signum w \<noteq> SIGTERM \<and> signum w \<noteq> SIGINT"
    and "signum t = SIGTERM \<or> signum t = SIGINT"
  shows "main_loop s (pre @ t # post) =
           (main_switch t (fold main_switch pre s), post, Loop_exited)
       \<and> lacpd_shutdown (main_switch t (fold main_switch pre s)) = 1
       \<and> mailbox (main_switch t (fold main_switch pre s)) = mailbox (fold main_switch pre s)"
proof -
  let ?s1 = "fold main_switch pre s"
  from main_loop_prefix[OF assms(1,2), of "t # post"]
  have a: "main_loop s (pre @ t # post) = main_loop ?s1 (t # post)"
    and b: "lacpd_shutdown ?s1 = 0"
    by simp_all
  have c: "lacpd_shutdown (main_switch t ?s1) = 1" "mailbox (main_switch t ?s1) = mailbox ?s1"
    using assms(3) by (simp_all add: main_switch_term)
  have "main_loop ?s1 (t # post) = main_loop (main_switch t ?s1) post" using b by simp
  also have "\<dots> = (main_switch t ?s1, post, Loop_exited)" using c(1) by (cases post) simp_all
  finally show ?thesis using a c by simp
qed

theorem sigterm_shutdown_witness:
  "main_loop example_daemon
     [Wakeup SIGALRM (Some example_block) True, Wakeup 1 None True,
      Wakeup SIGTERM None True, Wakeup SIGALRM (Some example_block) True] =
   (example_daemon
      \<lparr>lacpd_shutdown := 1,
       mailbox :=
         \<lparr>q_elems = [\<lparr>sender_peer = 3, other_fields = 0\<rparr>], q_mutex = False, q_avail = 1\<rparr>,
       vlog := [(VLL_INFO, ''Ignoring signal %d.\<newline>'', [Num 1]),
                (VLL_WARN, ''%s, sig %d caught'', [Str ''main'', Num 15])]\<rparr>,
    [Wakeup SIGALRM (Some example_block) True], Loop_exited)"
proof -
  have a: "lacpd_shutdown example_daemon = 0" by (simp add: example_daemon_def)
  have b: "\<forall>w\<in>set [Wakeup SIGALRM (Some example_block) True, Wakeup 1 None True].
             signum w \<noteq> SIGTERM \<and> signum w \<noteq> SIGINT"
    by (simp add: SIGALRM_def SIGTERM_def SIGINT_def)
  have c: "signum (Wakeup SIGTERM None True) = SIGTERM
         \<or> signum (Wakeup SIGTERM None True) = SIGINT"
    by simp
  from sigterm_shutdown
    [OF a b c, of "[Wakeup SIGALRM (Some example_block) True]", THEN conjunct1]
  show ?thesis
    by (simp add: example_daemon_def main_switch_def timerHandler_def log_msg_def mqueue_init_def
      memset_zero_def ml_send_event_def mqueue_send_def mq_lock_def mq_unlock_def
      mq_insque_tail_def mq_sem_post_def SIGALRM_def SIGTERM_def SIGINT_def)
qed

text \<open>
  Claim C10. While the shutdown flag is clear, a signal other than \<^verbatim>\<open>SIGALRM\<close>,
  \<^verbatim>\<open>SIGTERM\<close> and \<^verbatim>\<open>SIGINT\<close> adds one line to the log and changes nothing else, the flag
  stays clear and the loop goes on with the next signal; whenever the loop has been left,
  \<^verbatim>\<open>SIGTERM\<close> or \<^verbatim>\<open>SIGINT\<close> was among the signals delivered; and the \<^verbatim>\<open>exit\<close> command
  of ovs-appctl, which sets \<^verbatim>\<open>exiting\<close> for the OVSDB interface thread, leaves the flag of
  the signal loop clear.
\<close>

theorem other_signals_ignored:
  assumes "lacpd_shutdown s = 0"
  shows "(signum w \<noteq> SIGALRM \<and> signum w \<noteq> SIGTERM \<and> signum w \<noteq> SIGINT \<longrightarrow>
            main_switch w s =
              s\<lparr>vlog := vlog s @ [(VLL_INFO, ''Ignoring signal %d.\<newline>'', [Num (signum w)])]\<rparr>
          \<and> lacpd_shutdown (main_switch w s) = 0
          \<and> main_loop s (w # ws) = main_loop (main_switch w s) ws)
       \<and> (snd (snd (main_loop s sigs)) = Loop_exited \<longrightarrow>
            (\<exists>x\<in>set sigs. signum x = SIGTERM \<or> signum x = SIGINT))
       \<and> lacpd_shutdown (snd (halon_lacpd_exit conn s)) = 0"
proof -
  have "\<exists>x\<in>set sigs. signum x = SIGTERM \<or> signum x = SIGINT"
    if "snd (snd (main_loop s sigs)) = Loop_exited"
  proof -
    from that
    have "main_loop s sigs = (fst (main_loop s sigs), fst (snd (main_loop s sigs)), Loop_exited)"
      by (metis prod.collapse)
    from main_loop_exit_needs_term[OF assms this] show ?thesis .
  qed
  with assms show ?thesis by (simp add: main_switch_def log_msg_def halon_lacpd_exit_def)
qed

theorem other_signals_ignored_witness:
  "main_switch (Wakeup 1 None True) example_daemon =
     example_daemon\<lparr>vlog := [(VLL_INFO, ''Ignoring signal %d.\<newline>'', [Num 1])]\<rparr>
   \<and> (\<exists>x\<in>set [Wakeup 1 None True, Wakeup SIGINT None True].
         signum x = SIGTERM \<or> signum x = SIGINT)"
proof -
  have a: "lacpd_shutdown example_daemon = 0" by (simp add: example_daemon_def)
  have b: "snd (snd (main_loop example_daemon [Wakeup 1 None True, Wakeup SIGINT None True])) =
      Loop_exited"
    by (simp add: example_daemon_def main_switch_def log_msg_def SIGALRM_def SIGTERM_def
        SIGINT_def)
  from other_signals_ignored [OF a, where w = "Wakeup 1 None True" and ws = "[]"
      and sigs = "[Wakeup 1 None True, Wakeup SIGINT None True]"] b
  show ?thesis by (simp add: example_daemon_def SIGALRM_def SIGTERM_def SIGINT_def)
qed

section \<open>lacpd.c: initialisation, command line, debug dump\<close>

text \<open>
  Claim C5, as amended. \<^verbatim>\<open>lacpd_init\<close> creates exactly one thread, and it runs
  \<^verbatim>\<open>lacpd_ovs_main_thread\<close>, the OVSDB interface loop; when \<^verbatim>\<open>pthread_create\<close> fails it
  creates none and exits with the negated return code. The creation of the protocol thread
  is not compiled, so no thread running the protocol loop exists after initialisation.
\<close>

theorem lacpd_init_threads:
  "threads_after_init db_path rc s =
     threads s @ (if rc = 0 then [Entry_lacpd_ovs_main_thread] else [])
   \<and> isl (lacpd_init db_path rc s) = (rc \<noteq> 0)
   \<and> (case lacpd_init db_path rc s of Inl (status, s1) \<Rightarrow> status = - rc | Inr s1 \<Rightarrow> rc = 0)"
  by (simp add: threads_after_init_def lacpd_init_def log_msg_def)

theorem lacpd_init_threads_witness:
  "threads_after_init ''unix:/var/run/openvswitch/db.sock'' 11 example_daemon
     = [Entry_lacpd_ovs_main_thread]
   \<and> isl (lacpd_init ''unix:/var/run/openvswitch/db.sock'' 11 example_daemon)"
  using lacpd_init_threads [of "''unix:/var/run/openvswitch/db.sock''" 11 example_daemon]
  by (simp add: example_daemon_def)

text \<open>
  Claim C5 as it is stated says that one thread running the protocol loop is spawned.
  Initialisation of a daemon without threads, with \<^verbatim>\<open>pthread_create\<close> succeeding, leaves the
  OVSDB interface thread alone, and the protocol thread zero times.
\<close>

theorem lacpd_init_no_protocol_thread:
  "count_list (threads_after_init ''unix:/var/run/openvswitch/db.sock'' 0
      (example_daemon\<lparr>threads := []\<rparr>)) Entry_lacpd_protocol_thread \<noteq> 1
   \<and> threads_after_init ''unix:/var/run/openvswitch/db.sock'' 0
      (example_daemon\<lparr>threads := []\<rparr>) = [Entry_lacpd_ovs_main_thread]
   \<and> count_list (threads_after_init ''unix:/var/run/openvswitch/db.sock'' 0
      (example_daemon\<lparr>threads := []\<rparr>)) Entry_lacpd_protocol_thread = 0"
  by (simp add: threads_after_init_def lacpd_init_def example_daemon_def)

lemma option_loop_append:
  "\<forall>x\<in>set opts. fst x \<noteq> 104 \<and> (fst x = OPT_UNIXCTL \<or> lib (fst x)) \<Longrightarrow>
   option_loop lib (opts @ later) p = option_loop lib later (last_unixctl opts p)"
  by (induction opts arbitrary: p) (auto simp add: last_unixctl_def)

lemma option_loop_completes:
  "\<forall>x\<in>set opts. fst x \<noteq> 104 \<and> (fst x = OPT_UNIXCTL \<or> lib (fst x)) \<Longrightarrow>
   option_loop lib opts p = Inr (last_unixctl opts p)"
  using option_loop_append[of opts lib "[]" p] by simp

text \<open>
  Claim C9, as amended. When the option loop runs to its end, every option being
  \<^verbatim>\<open>--unixctl\<close> or one the library handles and none \<^verbatim>\<open>-h\<close>, then with no non-option argument
  the result is \<open>unix:<rundir>/db.sock\<close>, with one it is that argument, and with two or more
  the function ends in \<^verbatim>\<open>VLOG_FATAL\<close>. When the loop meets \<^verbatim>\<open>-h\<close> after such options it
  exits with success, and when it meets \<^verbatim>\<open>'?'\<close>, the code of an unrecognised option, it
  exits with failure, whatever the non-option arguments are.
\<close>

theorem parse_options_nonoption_arguments:
  assumes "\<forall>x\<in>set opts. fst x \<noteq> 104 \<and> (fst x = OPT_UNIXCTL \<or> lib (fst x))"
  shows "(args = [] \<longrightarrow> parse_options lib rundir opts args p =
            Inr (''unix:'' @ rundir @ ''/db.sock'', last_unixctl opts p))
       \<and> (\<forall>a. args = [a] \<longrightarrow>
            parse_options lib rundir opts args p = Inr (a, last_unixctl opts p))
       \<and> (2 \<le> length args \<longrightarrow> parse_options lib rundir opts args p =
            Inl (Vlog_fatal ''at most one non-option argument accepted; use --help for usage''))
       \<and> parse_options lib rundir (opts @ (104, optarg) # later) args p =
           Inl (Exit EXIT_SUCCESS)
       \<and> (\<not> lib 63 \<longrightarrow> parse_options lib rundir (opts @ (63, optarg) # later) args p =
            Inl (Exit EXIT_FAILURE))"
  using option_loop_completes[OF assms, of p]
    option_loop_append[OF assms, of "(104, optarg) # later" p]
    option_loop_append[OF assms, of "(63, optarg) # later" p]
  by (auto simp add: parse_options_def OPT_UNIXCTL_def split: list.splits)

theorem parse_options_nonoption_arguments_witness:
  "parse_options (\<lambda>c. c = 118) ''/var/run/openvswitch''
       [(118, []), (OPT_UNIXCTL, ''/tmp/ctl'')] [] None
     = Inr (''unix:/var/run/openvswitch/db.sock'', Some ''/tmp/ctl'')
   \<and> parse_options (\<lambda>c. c = 118) ''/var/run/openvswitch''
       [(118, []), (OPT_UNIXCTL, ''/tmp/ctl'')] [''tcp:127.0.0.1:6640''] None
     = Inr (''tcp:127.0.0.1:6640'', Some ''/tmp/ctl'')
   \<and> parse_options (\<lambda>c. c = 118) ''/var/run/openvswitch''
       [(118, []), (OPT_UNIXCTL, ''/tmp/ctl'')] [''a'', ''b''] None
     = Inl (Vlog_fatal ''at most one non-option argument accepted; use --help for usage'')"
proof -
  have a: "\<forall>x\<in>set [(118, []), (OPT_UNIXCTL, ''/tmp/ctl'')].
             fst x \<noteq> 104 \<and> (fst x = OPT_UNIXCTL \<or> (\<lambda>c. c = 118) (fst x))"
    by (simp add: OPT_UNIXCTL_def)
  from parse_options_nonoption_arguments
      [OF a, of "[]" "''/var/run/openvswitch''" None]
    parse_options_nonoption_arguments
      [OF a, of "[''tcp:127.0.0.1:6640'']" "''/var/run/openvswitch''" None]
    parse_options_nonoption_arguments
      [OF a, of "[''a'', ''b'']" "''/var/run/openvswitch''" None]
  show ?thesis by (simp add: last_unixctl_def OPT_UNIXCTL_def)
qed

text \<open>
  Claim C9 as it is stated says that with no non-option argument the default name is
  returned. With \<^verbatim>\<open>-h\<close> as the only argument there is no non-option argument, and the
  function does not return: it exits with status 0.
\<close>

theorem parse_options_help_counterexample:
  "parse_options (\<lambda>c. False) ''/var/run/openvswitch'' [(104, [])] [] None \<noteq>
     Inr (''unix:/var/run/openvswitch/db.sock'', None)
   \<and> parse_options (\<lambda>c. False) ''/var/run/openvswitch'' [(104, [])] [] None = Inl (Exit 0)"
  by (simp add: parse_options_def EXIT_SUCCESS_def)

text \<open>
  Claim C8. The dump callback leaves the Port/Aggregator state as it was, and its one
  effect is the reply on the connection, the text rendered from that state and the
  arguments.
\<close>

theorem lacpd_unixctl_dump_read_only:
  "snd (lacpd_unixctl_dump render conn argv pa) = pa
   \<and> replies (fst (lacpd_unixctl_dump render conn argv pa)) =
       replies conn @ [Some (render pa argv)]"
  by (simp add: lacpd_unixctl_dump_def lacpd_debug_dump_def unixctl_command_reply_def)

theorem lacpd_unixctl_dump_read_only_witness:
  "lacpd_unixctl_dump (\<lambda>pa argv. concat pa @ concat argv) \<lparr>replies = []\<rparr> [''lacpd/dump'']
     [''port 1'', ''lag 7''] =
   (\<lparr>replies = [Some ''port 1lag 7lacpd/dump'']\<rparr>, [''port 1'', ''lag 7''])"
  using lacpd_unixctl_dump_read_only
    [of "\<lambda>pa argv. concat pa @ concat argv" "\<lparr>replies = []\<rparr>" "[''lacpd/dump'']"
        "[''port 1'', ''lag 7'']"]
  by (cases "lacpd_unixctl_dump (\<lambda>pa argv. concat pa @ concat argv) \<lparr>replies = []\<rparr>
        [''lacpd/dump''] [''port 1'', ''lag 7'']") simp

end
